theory Spec2Isabelle
  imports Complex_Main "HOL-Library.Word" "HOL-Library.AList"
begin

section \<open>Exceptions of the Python run-time\<close>

text \<open>
  Every exception that the modelled functions can raise is a value of \<open>error\<close>; a function
  that may raise returns \<open>error + 'a\<close>, with \<open>Inl\<close> for the exception. \<open>TypeError\<close> is what
  the base JSON encoder raises for an object it does not know.
\<close>

datatype error = ValueError | ZeroDivisionError | IndexError | NameError | TypeError

section \<open>Workload partitioner: \<open>partition_list\<close>\<close>

text \<open>
  \<^verbatim>\<open>
  def partition_list(arr, m):
      """split the list 'arr' into m pieces"""
      n = int(math.ceil(len(arr) / float(m)))
      return [arr[i:i + n] for i in range(0, len(arr), n)]
  \<close>
  \<open>len(arr) / float(m)\<close> raises \<open>ZeroDivisionError\<close> for \<open>m = 0\<close>. The quotient is
  computed in double precision; for list lengths and worker counts below \<open>2 ^ 53\<close> (every list
  that fits in memory) the rounded quotient has the same ceiling as the exact one, so the chunk
  size is the exact integer ceiling, written here with floor division.
\<close>

definition py_ceil_div :: "int \<Rightarrow> int \<Rightarrow> int" where
  "py_ceil_div a b = - ((- a) div b)"

text \<open>\<open>range(i, stop, step)\<close> for a positive step, as the list of its values.\<close>

function range_from :: "nat \<Rightarrow> nat \<Rightarrow> nat \<Rightarrow> nat list" where
  "range_from i stop step =
     (if step = 0 \<or> stop \<le> i then [] else i # range_from (i + step) stop step)"
  by pat_completeness auto
termination
  by (relation "measure (\<lambda>(i, stop, step). stop - i)") auto

declare range_from.simps [simp del]

text \<open>
  \<open>range(0, stop, step)\<close>: a zero step raises \<open>ValueError\<close>, a negative step from 0 to a
  non-negative stop yields nothing.
\<close>

definition py_range0 :: "nat \<Rightarrow> int \<Rightarrow> error + nat list" where
  "py_range0 stop step =
     (if step = 0 then Inl ValueError
      else if step < 0 then Inr []
      else Inr (range_from 0 stop (nat step)))"

text \<open>The slice \<open>arr[i:j]\<close> for \<open>0 \<le> i \<le> j\<close>; a slice never raises.\<close>

definition py_slice :: "'a list \<Rightarrow> nat \<Rightarrow> nat \<Rightarrow> 'a list" where
  "py_slice arr i j = take (j - i) (drop i arr)"

definition partition_list :: "'a list \<Rightarrow> int \<Rightarrow> error + 'a list list" where
  "partition_list arr m =
     (if m = 0 then Inl ZeroDivisionError
      else let n = py_ceil_div (int (length arr)) m in
        case py_range0 (length arr) n of
          Inl e \<Rightarrow> Inl e
        | Inr starts \<Rightarrow> Inr (map (\<lambda>i. py_slice arr i (i + nat n)) starts))"

section \<open>Python values and the JSON encoder \<open>NpEncoder\<close>\<close>

text \<open>
  The values that reach \<open>json.dumps\<close>. \<open>PyNone\<close> to \<open>PyDict\<close> are the types the standard
  encoder writes by itself (the document's dictionaries have string keys only).
  \<open>NpInteger\<close>, \<open>NpFloating\<close> and \<open>NpArray\<close> are numpy's scalar and array wrappers, and
  \<open>PyOther\<close> stands for any other object the standard encoder does not know (a set, a
  \<open>bytes\<close>, a \<open>numpy.bool_\<close>, ...), tagged with its type's name. The type \<open>'f\<close> is the type
  of double-precision values, which the encoder only passes on.

  An \<open>ndarray\<close> of a numeric dtype is a nest of rows over integer or floating elements;
  a 0-dimensional array is a single element.
\<close>

datatype 'f ndarray = NdInt int | NdFloat 'f | NdArr "'f ndarray list"

datatype 'f pyobj =
    PyNone
  | PyBool bool
  | PyInt int
  | PyFloat 'f
  | PyStr string
  | PyList "'f pyobj list"
  | PyDict "(string \<times> 'f pyobj) list"
  | NpInteger int
  | NpFloating 'f
  | NpArray "'f ndarray"
  | PyOther string

text \<open>\<open>ndarray.tolist()\<close>: nested lists of Python scalars.\<close>

fun tolist :: "'f ndarray \<Rightarrow> 'f pyobj" where
  "tolist (NdInt i) = PyInt i"
| "tolist (NdFloat x) = PyFloat x"
| "tolist (NdArr rows) = PyList (map tolist rows)"

text \<open>
  \<^verbatim>\<open>
  class NpEncoder(json.JSONEncoder):
      def default(self, obj):
          if isinstance(obj, np.integer):
              return int(obj)
          elif isinstance(obj, np.floating):
              return float(obj)
          elif isinstance(obj, np.ndarray):
              return obj.tolist()
          elif isinstance(obj, datetime.datetime):
              return obj.strftime('%Y-%m-%dT%H:%M:%S')
          else:
              return super(NpEncoder, self).default(obj)
  \<close>
  The module never imports \<open>datetime\<close>, so the fourth test cannot be evaluated: every
  object that gets past the first three tests raises \<open>NameError\<close> there, and the last
  branch, where the base class would raise \<open>TypeError\<close>, is never reached.
\<close>

definition NpEncoder_default :: "'f pyobj \<Rightarrow> error + 'f pyobj" where
  "NpEncoder_default obj =
     (case obj of
        NpInteger i \<Rightarrow> Inr (PyInt i)
      | NpFloating x \<Rightarrow> Inr (PyFloat x)
      | NpArray a \<Rightarrow> Inr (tolist a)
      | _ \<Rightarrow> Inl NameError)"

text \<open>
  The encoder's traversal (\<open>JSONEncoder.iterencode\<close>): a value of a standard type is written
  as it is, a list and a dictionary element by element in order, and any other object is
  replaced by \<open>default(obj)\<close> and encoded again. The result is the tree of plain values whose
  text is written; an exception stops the traversal. (\<open>numpy.float64\<close> is also a Python
  \<open>float\<close> and is written directly; \<open>default\<close> gives the same plain float.)

  The measure \<open>weight\<close> shows that the traversal ends: what \<open>default\<close> returns weighs less
  than the object it replaces.
\<close>

fun nd_weight :: "'f ndarray \<Rightarrow> nat" where
  "nd_weight (NdInt i) = 1"
| "nd_weight (NdFloat x) = 1"
| "nd_weight (NdArr rows) = Suc (sum_list (map nd_weight rows))"

fun weight :: "'f pyobj \<Rightarrow> nat" where
  "weight (PyList xs) = Suc (sum_list (map weight xs))"
| "weight (PyDict kvs) = Suc (sum_list (map (\<lambda>kv. weight (snd kv)) kvs))"
| "weight (NpInteger i) = 2"
| "weight (NpFloating x) = 2"
| "weight (NpArray a) = Suc (nd_weight a)"
| "weight (PyOther s) = 2"
| "weight obj = 1"

lemma weight_tolist: "weight (tolist a) = nd_weight a"
  by (induction a) (simp_all add: comp_def cong: map_cong)

lemma weight_pos: "0 < weight obj"
  by (cases obj) simp_all

function iterencode :: "'f pyobj \<Rightarrow> error + 'f pyobj"
  and iterencode_list :: "'f pyobj list \<Rightarrow> error + 'f pyobj list"
  and iterencode_dict :: "(string \<times> 'f pyobj) list \<Rightarrow> error + (string \<times> 'f pyobj) list"
where
  "iterencode PyNone = Inr PyNone"
| "iterencode (PyBool b) = Inr (PyBool b)"
| "iterencode (PyInt i) = Inr (PyInt i)"
| "iterencode (PyFloat x) = Inr (PyFloat x)"
| "iterencode (PyStr s) = Inr (PyStr s)"
| "iterencode (PyList xs) =
     (case iterencode_list xs of Inl e \<Rightarrow> Inl e | Inr ys \<Rightarrow> Inr (PyList ys))"
| "iterencode (PyDict kvs) =
     (case iterencode_dict kvs of Inl e \<Rightarrow> Inl e | Inr out \<Rightarrow> Inr (PyDict out))"
| "iterencode (NpInteger i) =
     (case NpEncoder_default (NpInteger i) of Inl e \<Rightarrow> Inl e | Inr obj \<Rightarrow> iterencode obj)"
| "iterencode (NpFloating x) =
     (case NpEncoder_default (NpFloating x) of Inl e \<Rightarrow> Inl e | Inr obj \<Rightarrow> iterencode obj)"
| "iterencode (NpArray a) =
     (case NpEncoder_default (NpArray a) of Inl e \<Rightarrow> Inl e | Inr obj \<Rightarrow> iterencode obj)"
| "iterencode (PyOther s) =
     (case NpEncoder_default (PyOther s) of Inl e \<Rightarrow> Inl e | Inr obj \<Rightarrow> iterencode obj)"
| "iterencode_list [] = Inr []"
| "iterencode_list (x # xs) =
     (case iterencode x of
        Inl e \<Rightarrow> Inl e
      | Inr y \<Rightarrow> (case iterencode_list xs of Inl e \<Rightarrow> Inl e | Inr ys \<Rightarrow> Inr (y # ys)))"
| "iterencode_dict [] = Inr []"
| "iterencode_dict (kv # kvs) =
     (case iterencode (snd kv) of
        Inl e \<Rightarrow> Inl e
      | Inr y \<Rightarrow>
          (case iterencode_dict kvs of Inl e \<Rightarrow> Inl e | Inr out \<Rightarrow> Inr ((fst kv, y) # out)))"
  by pat_completeness auto
termination
  by (relation "measure (\<lambda>x. case x of
          Inl obj \<Rightarrow> 2 * weight obj
        | Inr (Inl xs) \<Rightarrow> 2 * sum_list (map weight xs) + 1
        | Inr (Inr kvs) \<Rightarrow> 2 * sum_list (map (\<lambda>kv. weight (snd kv)) kvs) + 1)")
     (auto simp: NpEncoder_default_def weight_tolist weight_pos)

text \<open>\<open>json.dumps(json_data, cls=NpEncoder)\<close>.\<close>

definition dumps :: "'f pyobj \<Rightarrow> error + 'f pyobj" where
  "dumps obj = iterencode obj"

text \<open>\<open>d[key]\<close> read from a dictionary value, for stating what a record holds.\<close>

definition py_get :: "string \<Rightarrow> 'f pyobj \<Rightarrow> 'f pyobj option" where
  "py_get key obj = (case obj of PyDict kvs \<Rightarrow> map_of kvs key | _ \<Rightarrow> None)"

text \<open>
  The words of the specification about the encoder. A value is \<open>plain\<close> when no numpy
  wrapper and no unknown object is left anywhere in it; \<open>wrappers_only\<close> says that the only
  non-standard values in it are the three numpy wrappers; \<open>spec_normalise\<close> turns every numpy
  integer into a plain integer, every numpy floating value into a plain float and every
  array into nested plain lists, and changes nothing else.
\<close>

fun plain :: "'f pyobj \<Rightarrow> bool" where
  "plain (PyList xs) = list_all plain xs"
| "plain (PyDict kvs) = list_all (\<lambda>kv. plain (snd kv)) kvs"
| "plain (NpInteger i) = False"
| "plain (NpFloating x) = False"
| "plain (NpArray a) = False"
| "plain (PyOther s) = False"
| "plain obj = True"

fun wrappers_only :: "'f pyobj \<Rightarrow> bool" where
  "wrappers_only (PyList xs) = list_all wrappers_only xs"
| "wrappers_only (PyDict kvs) = list_all (\<lambda>kv. wrappers_only (snd kv)) kvs"
| "wrappers_only (PyOther s) = False"
| "wrappers_only obj = True"

fun spec_normalise :: "'f pyobj \<Rightarrow> 'f pyobj" where
  "spec_normalise (NpInteger i) = PyInt i"
| "spec_normalise (NpFloating x) = PyFloat x"
| "spec_normalise (NpArray a) = tolist a"
| "spec_normalise (PyList xs) = PyList (map spec_normalise xs)"
| "spec_normalise (PyDict kvs) = PyDict (map (\<lambda>kv. (fst kv, spec_normalise (snd kv))) kvs)"
| "spec_normalise obj = obj"

section \<open>Mask decomposition and polygon extraction: \<open>get_polygons_for_all_classes\<close>\<close>

text \<open>
  A label map is the 2-dimensional \<open>uint8\<close> array that inference returns, as a list of rows
  of equal length; \<open>shape\<close> is \<open>pred.shape\<close>, height first. A polygon is a list of points,
  a point the list of its coordinates. The external tracer \<open>get_polygon\<close> is a parameter: a
  function from a mask and the image size to a list of polygons, or to \<open>None\<close>.
\<close>

type_synonym label_map = "8 word list list"
type_synonym mask = "8 word list list"
type_synonym 'f polygon = "'f pyobj list list"
type_synonym 'f tracer = "mask \<Rightarrow> nat \<times> nat \<Rightarrow> 'f polygon list option"

definition shape :: "label_map \<Rightarrow> nat \<times> nat" where
  "shape pred = (length pred, (case pred of [] \<Rightarrow> 0 | row # _ \<Rightarrow> length row))"

text \<open>\<open>np.where(pred == class_id, 255, 0).astype(np.uint8)\<close>\<close>

definition class_mask :: "label_map \<Rightarrow> nat \<Rightarrow> mask" where
  "class_mask pred class_id = map (map (\<lambda>p. if unat p = class_id then 255 else 0)) pred"

text \<open>
  \<^verbatim>\<open>
  def get_polygons_for_all_classes(pred, img_size):
      all_polygons = {}
      for class_id in range(19):
          class_mask = np.where(pred == class_id, 255, 0).astype(np.uint8)
          class_polygons = get_polygon(class_mask, img_size=img_size, building=False)
          if class_polygons is not None:
              if class_id not in all_polygons:
                  all_polygons[class_id] = []
              all_polygons[class_id].extend(class_polygons)
      return all_polygons
  \<close>
  One pass of the loop body is \<open>class_step\<close>. Its state is the dictionary \<open>all_polygons\<close>, an
  association list in insertion order (the order in which \<open>items()\<close> yields it).
\<close>

definition class_step ::
  "'f tracer \<Rightarrow> label_map \<Rightarrow> nat \<times> nat
     \<Rightarrow> (nat \<times> 'f polygon list) list \<Rightarrow> nat \<Rightarrow> (nat \<times> 'f polygon list) list" where
  "class_step get_polygon pred img_size all_polygons class_id =
     (case get_polygon (class_mask pred class_id) img_size of
        None \<Rightarrow> all_polygons
      | Some class_polygons \<Rightarrow>
          (let initialised =
                 (if map_of all_polygons class_id = None
                  then AList.update class_id [] all_polygons else all_polygons)
           in AList.map_entry class_id (\<lambda>old. old @ class_polygons) initialised))"

definition get_polygons_for_all_classes ::
  "'f tracer \<Rightarrow> label_map \<Rightarrow> nat \<times> nat \<Rightarrow> (nat \<times> 'f polygon list) list" where
  "get_polygons_for_all_classes get_polygon pred img_size =
     foldl (class_step get_polygon pred img_size) [] [0..<19]"

section \<open>The saved name of an image\<close>

text \<open>
  \<^verbatim>\<open>
  if image_dir is not None:
      im_file = im_path.replace(image_dir, '')
  else:
      im_file = os.path.basename(im_path)
  if im_file[0] == '/' or im_file[0] == '\\':
      im_file = im_file[1:]
  \<close>
  \<open>s.replace(old, '')\<close> deletes every occurrence of \<open>old\<close> in \<open>s\<close>, found from left to right
  without overlap; an empty \<open>old\<close> leaves \<open>s\<close> as it is. \<open>os.path.basename\<close> is the POSIX
  one: what follows the last slash. \<open>im_file[0]\<close> raises \<open>IndexError\<close> on the empty string.
\<close>

function str_remove :: "string \<Rightarrow> string \<Rightarrow> string" where
  "str_remove s old =
     (if s = [] \<or> old = [] then s
      else if take (length old) s = old then str_remove (drop (length old) s) old
      else hd s # str_remove (tl s) old)"
  by pat_completeness auto
termination
  by (relation "measure (\<lambda>(s, old). length s)") auto

declare str_remove.simps [simp del]

definition basename :: "string \<Rightarrow> string" where
  "basename p = rev (takeWhile (\<lambda>c. c \<noteq> CHR ''/'') (rev p))"

definition saved_name :: "string option \<Rightarrow> string \<Rightarrow> error + string" where
  "saved_name image_dir im_path =
     (let im_file = (case image_dir of
                       Some d \<Rightarrow> str_remove im_path d
                     | None \<Rightarrow> basename im_path)
      in case im_file of
           [] \<Rightarrow> Inl IndexError
         | c # rest \<Rightarrow> if c = CHR ''/'' \<or> c = CHR 0x5C then Inr rest else Inr im_file)"

text \<open>
  The specification's reading of the same step: the root directory is taken off the front
  of the path when the path starts with it, the base name is used when no root directory is
  configured, and one leading separator is removed.
\<close>

definition spec_saved_name :: "string option \<Rightarrow> string \<Rightarrow> string" where
  "spec_saved_name image_dir im_path =
     (let rel = (case image_dir of
                   Some d \<Rightarrow>
                     if take (length d) im_path = d then drop (length d) im_path else im_path
                 | None \<Rightarrow> basename im_path)
      in case rel of
           [] \<Rightarrow> []
         | c # rest \<Rightarrow> if c = CHR ''/'' \<or> c = CHR 0x5C then rest else rel)"

section \<open>Annotation assembly: \<open>predict\<close>\<close>

text \<open>The category table that \<open>predict\<close> builds, one dictionary per category, ids 0 to 18.\<close>

definition category :: "int \<Rightarrow> string \<Rightarrow> int list \<Rightarrow> 'f pyobj" where
  "category cid name color =
     PyDict [(''id'', PyInt cid), (''name'', PyStr name),
             (''color'', PyList (map PyInt color)), (''supercategory'', PyStr [])]"

definition categories :: "'f pyobj list" where
  "categories =
     [category 0 ''road'' [128, 64, 128],
      category 1 ''sidewalk'' [244, 35, 232],
      category 2 ''building'' [70, 70, 70],
      category 3 ''wall'' [102, 102, 156],
      category 4 ''fence'' [190, 153, 153],
      category 5 ''pole'' [153, 153, 153],
      category 6 ''traffic_light'' [250, 170, 30],
      category 7 ''traffic_sign'' [220, 220, 0],
      category 8 ''vegetation'' [107, 142, 35],
      category 9 ''terrain'' [152, 251, 152],
      category 10 ''sky'' [70, 130, 180],
      category 11 ''person'' [220, 20, 60],
      category 12 ''rider'' [255, 0, 0],
      category 13 ''car'' [0, 0, 142],
      category 14 ''truck'' [0, 0, 70],
      category 15 ''bus'' [0, 60, 100],
      category 16 ''train'' [0, 80, 100],
      category 17 ''motorcycle'' [0, 0, 230],
      category 18 ''bicycle'' [119, 11, 32]]"

text \<open>
  \<^verbatim>\<open>
  for class_id, class_polygons in all_class_polygons.items():
      for polygon in class_polygons:
          segmentation = [point for sublist in polygon for point in sublist]
          annotation = {
              "id": len(annotations) + 1,
              "iscrowd": 0,
              "image_id": i+1,
              "category_id": class_id,
              "segmentation": [segmentation],
              "area": 0,
              "bbox": []
          }
          annotations.append(annotation)
  \<close>
\<close>

definition append_annotation ::
  "nat \<Rightarrow> nat \<Rightarrow> 'f pyobj list \<Rightarrow> 'f polygon \<Rightarrow> 'f pyobj list" where
  "append_annotation i class_id annotations polygon =
     (let segmentation = concat polygon;
          annotation = PyDict
            [(''id'', PyInt (int (length annotations) + 1)),
             (''iscrowd'', PyInt 0),
             (''image_id'', PyInt (int i + 1)),
             (''category_id'', PyInt (int class_id)),
             (''segmentation'', PyList [PyList segmentation]),
             (''area'', PyInt 0),
             (''bbox'', PyList [])]
      in annotations @ [annotation])"

definition append_annotations ::
  "nat \<Rightarrow> 'f pyobj list \<Rightarrow> (nat \<times> 'f polygon list) list \<Rightarrow> 'f pyobj list" where
  "append_annotations i annotations all_class_polygons =
     foldl (\<lambda>anns entry. foldl (append_annotation i (fst entry)) anns (snd entry))
       annotations all_class_polygons"

text \<open>The dictionary \<open>image\<close> of the image at index \<open>i\<close> of the shard.\<close>

definition image_entry :: "nat \<Rightarrow> label_map \<Rightarrow> string \<Rightarrow> 'f pyobj" where
  "image_entry i pred im_file =
     PyDict [(''id'', PyInt (int i + 1)),
             (''width'', PyInt (int (snd (shape pred)))),
             (''height'', PyInt (int (fst (shape pred)))),
             (''file_name'', PyStr im_file),
             (''license'', PyStr []),
             (''flickr_url'', PyStr []),
             (''coco_url'', PyStr []),
             (''date_captured'', PyStr [])]"

text \<open>
  One pass of the loop \<open>for i, im_path in enumerate(img_lists[local_rank])\<close>. Preprocessing
  and inference are the parameter \<open>infer\<close>, from the image path to the label map (after
  \<open>squeeze\<close> and \<open>astype('uint8')\<close>). The state is the pair of the lists \<open>images\<close> and
  \<open>annotations\<close>. The overlay and pseudo-colour images written in between go through the
  visualisation library and touch neither list; they are left out.
\<close>

definition predict_image ::
  "(string \<Rightarrow> label_map) \<Rightarrow> 'f tracer \<Rightarrow> string option \<Rightarrow> nat \<Rightarrow> string
     \<Rightarrow> 'f pyobj list \<times> 'f pyobj list \<Rightarrow> error + ('f pyobj list \<times> 'f pyobj list)" where
  "predict_image infer get_polygon image_dir i im_path st =
     (let pred = infer im_path;
          all_class_polygons = get_polygons_for_all_classes get_polygon pred (shape pred)
      in case saved_name image_dir im_path of
           Inl e \<Rightarrow> Inl e
         | Inr im_file \<Rightarrow>
             Inr (fst st @ [image_entry i pred im_file],
                  append_annotations i (snd st) all_class_polygons))"

fun predict_loop ::
  "(string \<Rightarrow> label_map) \<Rightarrow> 'f tracer \<Rightarrow> string option \<Rightarrow> (nat \<times> string) list
     \<Rightarrow> 'f pyobj list \<times> 'f pyobj list \<Rightarrow> error + ('f pyobj list \<times> 'f pyobj list)" where
  "predict_loop infer get_polygon image_dir [] st = Inr st"
| "predict_loop infer get_polygon image_dir ((i, im_path) # rest) st =
     (case predict_image infer get_polygon image_dir i im_path st of
        Inl e \<Rightarrow> Inl e
      | Inr st' \<Rightarrow> predict_loop infer get_polygon image_dir rest st')"

text \<open>
  \<^verbatim>\<open>
  if nranks > 1:
      img_lists = partition_list(image_list, nranks)
  else:
      img_lists = [image_list]
  ...
  progbar_pred = progbar.Progbar(target=len(img_lists[0]), verbose=1)
  ...
  for i, im_path in enumerate(img_lists[local_rank]):
  \<close>
  Both subscripts raise \<open>IndexError\<close> past the end of \<open>img_lists\<close>.
\<close>

definition select_shard :: "string list \<Rightarrow> int \<Rightarrow> nat \<Rightarrow> error + string list" where
  "select_shard image_list nranks local_rank =
     (case (if nranks > 1 then partition_list image_list nranks else Inr [image_list]) of
        Inl e \<Rightarrow> Inl e
      | Inr img_lists \<Rightarrow>
          if img_lists = [] then Inl IndexError
          else if local_rank < length img_lists then Inr (img_lists ! local_rank)
          else Inl IndexError)"

text \<open>
  What one invocation of \<open>predict\<close> leaves behind: the two lists it built and the document
  written to \<open>annotations.json\<close>, as the tree of plain values that is written out.
\<close>

record 'f outcome =
  images :: "'f pyobj list"
  annotations :: "'f pyobj list"
  written :: "'f pyobj"

definition predict ::
  "(string \<Rightarrow> label_map) \<Rightarrow> 'f tracer \<Rightarrow> string list \<Rightarrow> string option \<Rightarrow> int \<Rightarrow> nat
     \<Rightarrow> error + 'f outcome" where
  "predict infer get_polygon image_list image_dir nranks local_rank =
     (case select_shard image_list nranks local_rank of
        Inl e \<Rightarrow> Inl e
      | Inr shard \<Rightarrow>
          (case predict_loop infer get_polygon image_dir (List.enumerate 0 shard) ([], []) of
             Inl e \<Rightarrow> Inl e
           | Inr st \<Rightarrow>
               (let json_data = PyDict
                      [(''categories'', PyList categories),
                       (''images'', PyList (fst st)),
                       (''annotations'', PyList (snd st)),
                       (''info'', PyStr []),
                       (''licenses'', PyList [])]
                in case dumps json_data of
                     Inl e \<Rightarrow> Inl e
                   | Inr text \<Rightarrow>
                       Inr \<lparr>images = fst st, annotations = snd st, written = text\<rparr>)))"

text \<open>
  The number of polygons emitted for a shard: for every image, the polygons of every entry
  of the mapping that \<open>get_polygons_for_all_classes\<close> returns for it.
\<close>

definition polygon_count :: "(nat \<times> 'f polygon list) list \<Rightarrow> nat" where
  "polygon_count all_class_polygons =
     sum_list (map (\<lambda>entry. length (snd entry)) all_class_polygons)"

abbreviation (input) polygons_of ::
  "(string \<Rightarrow> label_map) \<Rightarrow> 'f tracer \<Rightarrow> string \<Rightarrow> (nat \<times> 'f polygon list) list" where
  "polygons_of infer get_polygon im_path \<equiv>
     get_polygons_for_all_classes get_polygon (infer im_path) (shape (infer im_path))"

definition polygons_emitted ::
  "(string \<Rightarrow> label_map) \<Rightarrow> 'f tracer \<Rightarrow> string list \<Rightarrow> nat" where
  "polygons_emitted infer get_polygon shard =
     sum_list (map (\<lambda>im_path. polygon_count (polygons_of infer get_polygon im_path)) shard)"

text \<open>
  Two predicates for the proofs: the ids of a list of annotations count up from 1, and an
  annotation belongs to the image at index \<open>i\<close> and to category \<open>c\<close>.
\<close>

definition ids_ok :: "'f pyobj list \<Rightarrow> bool" where
  "ids_ok anns =
     (map (py_get ''id'') anns = map (\<lambda>k. Some (PyInt k)) [1..int (length anns)])"

definition tagged :: "nat \<Rightarrow> nat \<Rightarrow> 'f pyobj \<Rightarrow> bool" where
  "tagged i c a = (py_get ''image_id'' a = Some (PyInt (int i + 1))
                  \<and> py_get ''category_id'' a = Some (PyInt (int c)))"

text \<open>
  The polygons of a mapping can be serialised when every coordinate is a standard value or
  one of the three numpy wrappers.
\<close>

definition encodable :: "(nat \<times> 'f polygon list) list \<Rightarrow> bool" where
  "encodable all_class_polygons =
     list_all (\<lambda>entry. list_all (\<lambda>polygon. list_all (list_all wrappers_only) polygon) (snd entry))
       all_class_polygons"

text \<open>
  A small run for the concrete instances below: two images of a directory \<open>img\<close>, the first
  showing the classes 0, 1 and 5, the second the classes 2 and 18, and a tracer that returns
  \<open>None\<close> for an all-background mask and one polygon of numpy integers otherwise.
\<close>

definition example_infer :: "string \<Rightarrow> label_map" where
  "example_infer im_path =
     (if im_path = ''img/a.png'' then [[0, 0, 1], [5, 5, 1]] else [[2, 2], [2, 18]])"

definition example_tracer :: "unit tracer" where
  "example_tracer m img_size =
     (if list_all (list_all (\<lambda>v. v = 0)) m then None
      else Some [[[NpInteger 0, NpInteger 0],
                  [NpInteger (int (fst img_size)), NpInteger (int (snd img_size))]]])"

section \<open>Properties of the partitioner\<close>

lemma py_ceil_div_ceiling:
  "b \<noteq> 0 \<Longrightarrow> py_ceil_div a b = \<lceil>real_of_int a / real_of_int b\<rceil>"
proof -
  have "\<lfloor>real_of_int (- a) / real_of_int b\<rfloor> = (- a) div b"
    by (rule floor_divide_of_int_eq)
  then show ?thesis
    by (simp add: py_ceil_div_def ceiling_def)
qed

lemma py_ceil_div_zero: "py_ceil_div 0 m = 0"
  by (simp add: py_ceil_div_def)

lemma py_ceil_div_mult_ge: "1 \<le> m \<Longrightarrow> a \<le> py_ceil_div a m * m"
proof -
  assume m: "1 \<le> m"
  have "(- a) div m * m + (- a) mod m = - a" by simp
  moreover have "0 \<le> (- a) mod m" using m by simp
  ultimately have "(- a) div m * m \<le> - a" by linarith
  then show ?thesis by (simp add: py_ceil_div_def)
qed

lemma py_ceil_div_nonneg: "1 \<le> m \<Longrightarrow> 0 \<le> a \<Longrightarrow> 0 \<le> py_ceil_div a m"
  unfolding py_ceil_div_def
  by (smt (verit) div_neg_pos_less0 zdiv_zminus1_eq_if pos_imp_zdiv_neg_iff div_0)

lemma py_ceil_div_pos: "1 \<le> m \<Longrightarrow> 0 < a \<Longrightarrow> 0 < py_ceil_div a m"
  unfolding py_ceil_div_def
  by (smt (verit) div_neg_pos_less0 zdiv_zminus1_eq_if pos_imp_zdiv_neg_iff)

text \<open>The slices taken at the values of the range, put end to end, are the rest of the list.\<close>

lemma concat_range_from:
  "0 < n \<Longrightarrow>
   concat (map (\<lambda>i. py_slice arr i (i + n)) (range_from i (length arr) n)) = drop i arr"
proof (induction i "length arr" n rule: range_from.induct)
  case (1 i step)
  show ?case
  proof (cases "length arr \<le> i")
    case True
    then show ?thesis by (subst range_from.simps) simp
  next
    case False
    with 1 have "concat (map (\<lambda>i. py_slice arr i (i + step))
        (range_from (i + step) (length arr) step)) = drop (i + step) arr"
      by simp
    moreover have "take step (drop i arr) @ drop (i + step) arr = drop i arr"
      using append_take_drop_id [of step "drop i arr"] by (simp add: add.commute)
    ultimately show ?thesis
      using False 1(2) by (subst range_from.simps) (simp add: py_slice_def)
  qed
qed

lemma slice_length_le: "length (py_slice arr i (i + n)) \<le> n"
  by (simp add: py_slice_def)

lemma range_from_nonempty: "0 < n \<Longrightarrow> i < stop \<Longrightarrow> range_from i stop n \<noteq> []"
  by (subst range_from.simps) simp

lemma length_range_from:
  "0 < n \<Longrightarrow> length (range_from i stop n) = (stop - i + n - 1) div n"
proof (induction i stop n rule: range_from.induct)
  case (1 i stop step)
  show ?case
  proof (cases "stop \<le> i")
    case True
    with 1(2) show ?thesis by (subst range_from.simps) simp
  next
    case False
    with 1 have "length (range_from (i + step) stop step) = (stop - (i + step) + step - 1) div step"
      by simp
    moreover have "Suc ((stop - (i + step) + step - 1) div step) = (stop - i + step - 1) div step"
    proof (cases "stop \<le> i + step")
      case True
      with False 1(2) have "stop - i + step - 1 < 2 * step" "step \<le> stop - i + step - 1"
        by auto
      then have "(stop - i + step - 1) div step = 1"
        by (metis One_nat_def div_mult_self1_is_m div_nat_eqI mult.commute mult_2
            mult_Suc_right nat_mult_1_right zero_less_iff_neq_zero 1(2))
      with True 1(2) show ?thesis by simp
    next
      case f2: False
      then have "stop - i + step - 1 = (stop - (i + step) + step - 1) + step" by simp
      then have "(stop - i + step - 1) div step
          = ((stop - (i + step) + step - 1) + step) div step"
        by (rule arg_cong)
      also have "\<dots> = Suc ((stop - (i + step) + step - 1) div step)"
        using 1(2) by (simp only: div_add_self2)
      finally show ?thesis by simp
    qed
    ultimately show ?thesis
      using False 1(2) by (subst range_from.simps) simp
  qed
qed

text \<open>What a normal return of \<open>partition_list\<close> looks like, for a worker count of at least 1.\<close>

lemma partition_list_Inr:
  assumes "1 \<le> m" "partition_list arr m = Inr shards"
  shows "0 < py_ceil_div (int (length arr)) m"
    and "shards = map (\<lambda>i. py_slice arr i (i + nat (py_ceil_div (int (length arr)) m)))
           (range_from 0 (length arr) (nat (py_ceil_div (int (length arr)) m)))"
  using assms py_ceil_div_nonneg [of m "int (length arr)"]
  by (auto simp: partition_list_def py_range0_def Let_def split: if_splits)

text \<open>A non-empty list is always partitioned; the empty list never is.\<close>

lemma partition_list_returns:
  "1 \<le> m \<Longrightarrow> arr \<noteq> [] \<Longrightarrow> \<exists>shards. partition_list arr m = Inr shards \<and> shards \<noteq> []"
  using py_ceil_div_pos [of m "int (length arr)"]
  by (auto simp: partition_list_def py_range0_def Let_def range_from_nonempty)

lemma partition_list_empty: "1 \<le> m \<Longrightarrow> partition_list [] m = Inl ValueError"
  by (simp add: partition_list_def py_range0_def py_ceil_div_zero)

lemma concat_segment:
  "k < length xss \<Longrightarrow>
   xss ! k = take (length (xss ! k)) (drop (length (concat (take k xss))) (concat xss))"
proof -
  assume k: "k < length xss"
  have "concat xss = concat (take k xss) @ xss ! k @ concat (drop (Suc k) xss)"
    using k by (metis append_take_drop_id concat.simps(2) concat_append Cons_nth_drop_Suc)
  then show ?thesis by simp
qed

text \<open>
  Claim C3. For a worker count \<open>m \<ge> 1\<close>, the sublists that \<open>partition_list\<close> returns put end
  to end in shard order are exactly the original list; none of them has more than
  \<open>ceil(N / m)\<close> items; and they are contiguous and non-overlapping: shard \<open>k\<close> is the segment
  of the list that starts where the shards before it end.
\<close>

theorem partition_list_shards:
  assumes "1 \<le> m" and "partition_list arr m = Inr shards"
  shows "concat shards = arr
       \<and> (\<forall>s \<in> set shards. int (length s) \<le> \<lceil>real (length arr) / real_of_int m\<rceil>)
       \<and> (\<forall>k < length shards.
            shards ! k = take (length (shards ! k)) (drop (length (concat (take k shards))) arr))"
proof -
  let ?n = "py_ceil_div (int (length arr)) m"
  note r = partition_list_Inr [OF assms]
  have pos: "0 < nat ?n" using r(1) by simp
  have c: "concat shards = arr"
    unfolding r(2) using concat_range_from [OF pos, of arr 0] by simp
  have "\<forall>s \<in> set shards. length s \<le> nat ?n"
    unfolding r(2) by (auto simp: slice_length_le)
  then have l: "\<forall>s \<in> set shards. int (length s) \<le> ?n"
    using r(1) by auto
  have ce: "?n = \<lceil>real (length arr) / real_of_int m\<rceil>"
    using assms(1) py_ceil_div_ceiling [of m "int (length arr)"] by simp
  have s: "\<forall>k < length shards.
            shards ! k = take (length (shards ! k)) (drop (length (concat (take k shards))) arr)"
    using concat_segment [of _ shards] c by simp
  from c l s ce show ?thesis by simp
qed

theorem partition_list_shards_witness:
  "(1::int) \<le> 2
   \<and> partition_list [10, 20, 30, 40, 50 :: nat] 2 = Inr [[10, 20, 30], [40, 50]]
   \<and> concat [[10, 20, 30], [40, 50]] = [10, 20, 30, 40, 50 :: nat]
   \<and> int (length [40, 50 :: nat])
       \<le> \<lceil>real (length [10, 20, 30, 40, 50 :: nat]) / real_of_int 2\<rceil>"
proof -
  have h: "partition_list [10, 20, 30, 40, 50 :: nat] 2 = Inr [[10, 20, 30], [40, 50]]"
    by code_simp
  from partition_list_shards [OF _ h] h show ?thesis
    by simp
qed

text \<open>The number of shards never exceeds the worker count, but it can fall short of it.\<close>

lemma partition_list_count:
  assumes "1 \<le> m" and "partition_list arr m = Inr shards"
  shows "int (length shards) \<le> m"
proof -
  let ?N = "length arr"
  let ?n = "nat (py_ceil_div (int ?N) m)"
  note r = partition_list_Inr [OF assms]
  have pos: "0 < ?n" using r(1) by simp
  have len: "length shards = (?N + ?n - 1) div ?n"
    unfolding r(2) using length_range_from [OF pos, of 0 ?N] by simp
  have "int ?N \<le> int ?n * m"
    using py_ceil_div_mult_ge [OF assms(1), of "int ?N"] r(1) by simp
  then have "int ?N \<le> int (?n * nat m)" using assms(1) by simp
  then have le: "?N \<le> ?n * nat m" by linarith
  have "?N + ?n - 1 < (nat m + 1) * ?n" using le pos by (simp add: mult.commute)
  then have "(?N + ?n - 1) div ?n < nat m + 1"
    using pos by (simp add: less_mult_imp_div_less)
  then show ?thesis using len assms(1) by linarith
qed

text \<open>
  Claim C4. The claim is that \<open>partition_list\<close> returns exactly \<open>m\<close> sublists. For five
  items and four workers the chunk size is 2 and the code returns three sublists, so the
  fourth rank finds no shard: \<open>img_lists[local_rank]\<close> raises \<open>IndexError\<close> in \<open>predict\<close>.
\<close>

theorem partition_list_fewer_than_m:
  "partition_list [''a.png'', ''b.png'', ''c.png'', ''d.png'', ''e.png''] 4
     = Inr [[''a.png'', ''b.png''], [''c.png'', ''d.png''], [''e.png'']]
   \<and> select_shard [''a.png'', ''b.png'', ''c.png'', ''d.png'', ''e.png''] 4 3 = Inl IndexError"
  by code_simp

text \<open>
  Claim C5. The claim is that \<open>partition_list\<close> returns normally for every list, the empty
  one included. For the empty list the chunk size is 0 and \<open>range(0, 0, 0)\<close> raises
  \<open>ValueError\<close>; with a single rank \<open>predict\<close> does not partition and takes the empty list
  as its shard.
\<close>

theorem partition_list_empty_raises:
  "partition_list ([] :: string list) 2 = Inl ValueError
   \<and> select_shard [] 2 0 = Inl ValueError
   \<and> select_shard [] 1 0 = Inr []"
  by code_simp

section \<open>Properties of the mask decomposer and the polygon adapter\<close>

lemma class_mask_shape:
  "length (class_mask pred c) = length pred"
  "r < length pred \<Longrightarrow> length (class_mask pred c ! r) = length (pred ! r)"
  by (simp_all add: class_mask_def)

lemma class_mask_pixel:
  "r < length pred \<Longrightarrow> col < length (pred ! r) \<Longrightarrow>
   class_mask pred c ! r ! col = (if unat (pred ! r ! col) = c then 255 else 0)"
  by (simp add: class_mask_def)

text \<open>
  A key that the dictionary does not hold yet is added at its end, and extending the entry
  added last leaves the earlier ones alone.
\<close>

lemma update_new_key:
  "k \<notin> fst ` set al \<Longrightarrow> AList.update k v al = al @ [(k, v)]"
  by (induction al) auto

lemma map_entry_last:
  "k \<notin> fst ` set al \<Longrightarrow> AList.map_entry k f (al @ [(k, v)]) = al @ [(k, f v)]"
  by (induction al) auto

text \<open>
  One pass of the loop for a class id that has no entry yet: the dictionary is left as it is
  when the tracer answers \<open>None\<close> for the mask of the class, and gets the tracer's answer as
  a new last entry otherwise.
\<close>

lemma class_step_new_key:
  assumes "c \<notin> fst ` set al"
  shows "class_step g pred sz al c =
           al @ (case g (class_mask pred c) sz of None \<Rightarrow> [] | Some ps \<Rightarrow> [(c, ps)])"
proof (cases "g (class_mask pred c) sz")
  case None
  then show ?thesis by (simp add: class_step_def)
next
  case (Some ps)
  from assms have "map_of al c = None"
    by (simp add: map_of_eq_None_iff)
  with Some assms show ?thesis
    by (simp add: class_step_def Let_def update_new_key map_entry_last)
qed

lemma set_map_filter_keys:
  "fst ` set (List.map_filter (\<lambda>c. map_option (Pair c) (f c)) cs) = {c \<in> set cs. f c \<noteq> None}"
  by (induction cs) (auto simp: List.map_filter_simps split: option.splits)

lemma foldl_class_step:
  assumes "distinct cs" and "set cs \<inter> fst ` set al = {}"
  shows "foldl (class_step g pred sz) al cs =
           al @ List.map_filter (\<lambda>c. map_option (Pair c) (g (class_mask pred c) sz)) cs"
  using assms
proof (induction cs arbitrary: al)
  case Nil
  then show ?case by (simp add: List.map_filter_simps)
next
  case (Cons c cs)
  let ?new = "case g (class_mask pred c) sz of None \<Rightarrow> [] | Some ps \<Rightarrow> [(c, ps)]"
  from Cons.prems have c: "c \<notin> fst ` set al" by auto
  have step: "class_step g pred sz al c = al @ ?new"
    by (rule class_step_new_key [OF c])
  have "fst ` set ?new \<subseteq> {c}" by (auto split: option.splits)
  with Cons.prems have d: "distinct cs" "set cs \<inter> fst ` set (al @ ?new) = {}"
    by auto
  have ih: "foldl (class_step g pred sz) (al @ ?new) cs =
      (al @ ?new) @ List.map_filter (\<lambda>c. map_option (Pair c) (g (class_mask pred c) sz)) cs"
    by (rule Cons.IH [OF d])
  have mf: "List.map_filter (\<lambda>c. map_option (Pair c) (g (class_mask pred c) sz)) (c # cs) =
      ?new @ List.map_filter (\<lambda>c. map_option (Pair c) (g (class_mask pred c) sz)) cs"
    by (cases "g (class_mask pred c) sz") (simp_all add: List.map_filter_simps)
  show ?case
    by (simp only: foldl_Cons step ih mf append_assoc)
qed

lemma map_of_map_filter_keys:
  "distinct cs \<Longrightarrow>
   map_of (List.map_filter (\<lambda>c. map_option (Pair c) (f c)) cs) c
     = (if c \<in> set cs then f c else None)"
proof (induction cs)
  case Nil
  then show ?case by (simp add: List.map_filter_simps)
next
  case (Cons a cs)
  then show ?case
    by (cases "f a") (auto simp: List.map_filter_simps)
qed

text \<open>
  What the function computes: the tracer's answers at the masks of the class ids 0 to 18,
  in ascending order of class id, with the class ids answered by \<open>None\<close> left out.
\<close>

lemma get_polygons_for_all_classes_eq:
  "get_polygons_for_all_classes g pred sz =
     List.map_filter (\<lambda>c. map_option (Pair c) (g (class_mask pred c) sz)) [0..<19]"
  using foldl_class_step [of "[0..<19]" "[]" g pred sz]
  by (simp add: get_polygons_for_all_classes_def)

lemma get_polygons_keys:
  "fst ` set (get_polygons_for_all_classes g pred sz) =
     {c. c < 19 \<and> g (class_mask pred c) sz \<noteq> None}"
  by (auto simp: get_polygons_for_all_classes_eq set_map_filter_keys)

text \<open>
  Claim C6. Whatever the label map holds, \<open>get_polygons_for_all_classes\<close> goes through the
  class ids of \<open>range(19)\<close> and applies the tracer to the mask of each of them, present in the
  label map or not: what it returns is, in ascending order of class id, the tracer's answer
  at the mask of every class id from 0 to 18 and at the given image size, each answer taken
  once, the class ids answered by \<open>None\<close> left out; so the entry of a class id below 19 is
  exactly the tracer's answer at that class id's mask. The mask passed for class id \<open>c\<close> has
  the label map's shape, with 255 at exactly the pixels whose label is \<open>c\<close> and 0 at every
  other pixel.
\<close>

theorem get_polygons_applies_tracer_to_every_class:
  "get_polygons_for_all_classes g pred sz
     = List.map_filter (\<lambda>c. map_option (Pair c) (g (class_mask pred c) sz)) [0..<19]
   \<and> (\<forall>c < 19. map_of (get_polygons_for_all_classes g pred sz) c = g (class_mask pred c) sz)
   \<and> length (class_mask pred c) = length pred
   \<and> (\<forall>r < length pred. length (class_mask pred c ! r) = length (pred ! r)
        \<and> (\<forall>col < length (pred ! r).
             class_mask pred c ! r ! col = (if unat (pred ! r ! col) = c then 255 else 0)))"
proof -
  have "\<forall>c < 19. map_of (get_polygons_for_all_classes g pred sz) c = g (class_mask pred c) sz"
    by (simp add: get_polygons_for_all_classes_eq map_of_map_filter_keys)
  then show ?thesis
    by (simp add: get_polygons_for_all_classes_eq [symmetric] class_mask_shape class_mask_pixel)
qed

theorem get_polygons_applies_tracer_to_every_class_witness:
  "get_polygons_for_all_classes example_tracer [[0, 0, 1], [5, 5, 1]] (2, 3)
     = [(0, [[[NpInteger 0, NpInteger 0], [NpInteger 2, NpInteger 3]]]),
        (1, [[[NpInteger 0, NpInteger 0], [NpInteger 2, NpInteger 3]]]),
        (5, [[[NpInteger 0, NpInteger 0], [NpInteger 2, NpInteger 3]]])]
   \<and> map_of (get_polygons_for_all_classes example_tracer [[0, 0, 1], [5, 5, 1]] (2, 3)) 5
       = example_tracer (class_mask [[0, 0, 1], [5, 5, 1]] 5) (2, 3)
   \<and> map fst (get_polygons_for_all_classes (\<lambda>m img_size. Some ([] :: unit polygon list))
         [[0, 0, 1], [5, 5, 1]] (2, 3)) = [0..<19]
   \<and> class_mask [[0, 0, 1], [5, 5, 1]] 5 ! 1 ! 0 = 255
   \<and> class_mask [[0, 0, 1], [5, 5, 1]] 5 ! 1 ! 2 = 0"
proof -
  let ?P = "[[0, 0, 1], [5, 5, 1]] :: label_map"
  let ?every = "\<lambda>(m :: mask) (img_size :: nat \<times> nat). Some ([] :: unit polygon list)"
  note t = get_polygons_applies_tracer_to_every_class [of example_tracer ?P "(2, 3)" 5]
  note u = get_polygons_applies_tracer_to_every_class [of ?every ?P "(2, 3)" 5]
  have e: "List.map_filter (\<lambda>c. map_option (Pair c) (example_tracer (class_mask ?P c) (2, 3)))
        [0..<19]
     = [(0, [[[NpInteger 0, NpInteger 0], [NpInteger 2, NpInteger 3]]]),
        (1, [[[NpInteger 0, NpInteger 0], [NpInteger 2, NpInteger 3]]]),
        (5, [[[NpInteger 0, NpInteger 0], [NpInteger 2, NpInteger 3]]])]"
    by code_simp
  from t have "get_polygons_for_all_classes example_tracer ?P (2, 3)
     = List.map_filter (\<lambda>c. map_option (Pair c) (example_tracer (class_mask ?P c) (2, 3)))
        [0..<19]"
    by (rule conjunct1)
  with e have a: "get_polygons_for_all_classes example_tracer ?P (2, 3)
     = [(0, [[[NpInteger 0, NpInteger 0], [NpInteger 2, NpInteger 3]]]),
        (1, [[[NpInteger 0, NpInteger 0], [NpInteger 2, NpInteger 3]]]),
        (5, [[[NpInteger 0, NpInteger 0], [NpInteger 2, NpInteger 3]]])]"
    by simp
  from t have "\<forall>c < 19. map_of (get_polygons_for_all_classes example_tracer ?P (2, 3)) c
      = example_tracer (class_mask ?P c) (2, 3)"
    by (rule conjunct2 [THEN conjunct1])
  then have b: "map_of (get_polygons_for_all_classes example_tracer ?P (2, 3)) 5
      = example_tracer (class_mask ?P 5) (2, 3)"
    by simp
  have f: "map fst (List.map_filter (\<lambda>c. map_option (Pair c) (?every (class_mask ?P c) (2, 3)))
        [0..<19]) = [0..<19]"
    by code_simp
  from u have "get_polygons_for_all_classes ?every ?P (2, 3)
     = List.map_filter (\<lambda>c. map_option (Pair c) (?every (class_mask ?P c) (2, 3))) [0..<19]"
    by (rule conjunct1)
  with f have c: "map fst (get_polygons_for_all_classes ?every ?P (2, 3)) = [0..<19]"
    by simp
  from t have "\<forall>r < length ?P. length (class_mask ?P 5 ! r) = length (?P ! r)
        \<and> (\<forall>col < length (?P ! r).
             class_mask ?P 5 ! r ! col = (if unat (?P ! r ! col) = 5 then 255 else 0))"
    by (rule conjunct2 [THEN conjunct2, THEN conjunct2])
  then have "\<forall>col < length (?P ! 1).
             class_mask ?P 5 ! 1 ! col = (if unat (?P ! 1 ! col) = 5 then 255 else 0)"
    by simp
  then have d: "class_mask ?P 5 ! 1 ! 0 = 255" "class_mask ?P 5 ! 1 ! 2 = 0"
    by simp_all
  from a b c d show ?thesis by (intro conjI)
qed

section \<open>Properties of the saved name\<close>

text \<open>
  Where the root directory's name occurs in the path only as its prefix, and something is
  left after it, the code and the specification's reading agree; so do they on the base name.
\<close>

lemma str_remove_absent:
  "\<forall>k. take (length old) (drop k s) \<noteq> old \<Longrightarrow> str_remove s old = s"
proof (induction s old rule: str_remove.induct)
  case (1 s old)
  show ?case
  proof (cases "s = [] \<or> old = []")
    case True
    then show ?thesis by (subst str_remove.simps) simp
  next
    case False
    from 1(3) have np: "take (length old) s \<noteq> old"
      by (metis drop0)
    have "\<forall>k. take (length old) (drop k (tl s)) \<noteq> old"
    proof
      fix k
      from 1(3) have "take (length old) (drop (Suc k) s) \<noteq> old" by blast
      then show "take (length old) (drop k (tl s)) \<noteq> old"
        by (simp add: drop_Suc)
    qed
    with 1(2) False np have "str_remove (tl s) old = tl s" by simp
    with False np show ?thesis
      by (subst str_remove.simps) simp
  qed
qed

lemma str_remove_prefix_once:
  assumes "take (length d) p = d"
    and "\<forall>k. take (length d) (drop k (drop (length d) p)) \<noteq> d"
  shows "str_remove p d = drop (length d) p"
proof (cases "p = [] \<or> d = []")
  case True
  then show ?thesis using assms(1) by (subst str_remove.simps) auto
next
  case False
  with assms(1) have "str_remove p d = str_remove (drop (length d) p) d"
    by (subst str_remove.simps) simp
  with str_remove_absent [OF assms(2)] show ?thesis by simp
qed

lemma saved_name_agrees_with_spec:
  assumes "take (length d) p = d"
    and "\<forall>k. take (length d) (drop k (drop (length d) p)) \<noteq> d"
    and "drop (length d) p \<noteq> []"
  shows "saved_name (Some d) p = Inr (spec_saved_name (Some d) p)"
  using assms(3)
  by (cases "drop (length d) p")
     (simp_all add: saved_name_def spec_saved_name_def Let_def assms(1)
        str_remove_prefix_once [OF assms(1,2)])

lemma saved_name_basename_agrees:
  "basename p \<noteq> [] \<Longrightarrow> saved_name None p = Inr (spec_saved_name None p)"
  by (cases "basename p") (simp_all add: saved_name_def spec_saved_name_def Let_def)

text \<open>
  Claim C8. The claim is that the configured root directory is stripped from the path as a
  prefix. The code deletes every occurrence of the root directory's name in the path: for the
  root \<open>data\<close> and the image \<open>data/city/data/x.png\<close> the saved name is \<open>city//x.png\<close>, where
  stripping the prefix gives \<open>city/data/x.png\<close>.
\<close>

theorem saved_name_removes_every_occurrence:
  "saved_name (Some ''data'') ''data/city/data/x.png'' = Inr ''city//x.png''
   \<and> spec_saved_name (Some ''data'') ''data/city/data/x.png'' = ''city/data/x.png''"
  by code_simp

section \<open>Properties of the encoder\<close>

lemma plain_tolist: "plain (tolist a)"
  by (induction a) (simp_all add: list_all_iff)

lemma iterencode_plain_id:
  fixes obj :: "'f pyobj" and xs :: "'f pyobj list" and kvs :: "(string \<times> 'f pyobj) list"
  shows "plain obj \<Longrightarrow> iterencode obj = Inr obj"
    and "list_all plain xs \<Longrightarrow> iterencode_list xs = Inr xs"
    and "list_all (\<lambda>kv. plain (snd kv)) kvs \<Longrightarrow> iterencode_dict kvs = Inr kvs"
  by (induction obj and xs and kvs rule: iterencode_iterencode_list_iterencode_dict.induct)
     simp_all

lemma iterencode_normalises:
  fixes obj :: "'f pyobj" and xs :: "'f pyobj list" and kvs :: "(string \<times> 'f pyobj) list"
  shows "wrappers_only obj \<Longrightarrow> iterencode obj = Inr (spec_normalise obj) \<and> plain (spec_normalise obj)"
    and "list_all wrappers_only xs \<Longrightarrow>
     iterencode_list xs = Inr (map spec_normalise xs) \<and> list_all plain (map spec_normalise xs)"
    and "list_all (\<lambda>kv. wrappers_only (snd kv)) kvs \<Longrightarrow>
     iterencode_dict kvs = Inr (map (\<lambda>kv. (fst kv, spec_normalise (snd kv))) kvs)
     \<and> list_all (\<lambda>kv. plain (snd kv)) (map (\<lambda>kv. (fst kv, spec_normalise (snd kv))) kvs)"
proof (induction obj and xs and kvs rule: iterencode_iterencode_list_iterencode_dict.induct)
  case (10 a)
  show ?case
    by (simp add: NpEncoder_default_def plain_tolist iterencode_plain_id(1))
qed (simp_all add: NpEncoder_default_def)

text \<open>The only exception the traversal can end with is the one of \<open>default\<close>, and it ends with it as soon as the document holds an object that is not one of the three wrappers.\<close>

lemma iterencode_error:
  fixes obj :: "'f pyobj" and xs :: "'f pyobj list" and kvs :: "(string \<times> 'f pyobj) list"
  shows "iterencode obj = Inl e \<Longrightarrow> e = NameError"
    and "iterencode_list xs = Inl e \<Longrightarrow> e = NameError"
    and "iterencode_dict kvs = Inl e \<Longrightarrow> e = NameError"
proof (induction obj and xs and kvs rule: iterencode_iterencode_list_iterencode_dict.induct)
  case (10 a)
  then show ?case
    by (simp add: NpEncoder_default_def plain_tolist iterencode_plain_id(1))
qed (auto simp: NpEncoder_default_def split: sum.splits)

lemma iterencode_unsupported:
  fixes obj :: "'f pyobj" and xs :: "'f pyobj list" and kvs :: "(string \<times> 'f pyobj) list"
  shows "\<not> wrappers_only obj \<Longrightarrow> iterencode obj = Inl NameError"
    and "\<not> list_all wrappers_only xs \<Longrightarrow> iterencode_list xs = Inl NameError"
    and "\<not> list_all (\<lambda>kv. wrappers_only (snd kv)) kvs \<Longrightarrow> iterencode_dict kvs = Inl NameError"
proof (induction obj and xs and kvs rule: iterencode_iterencode_list_iterencode_dict.induct)
  case (13 x xs)
  then show ?case
    by (cases "iterencode x") (auto dest: iterencode_error(1) split: sum.splits)
next
  case (15 kv kvs)
  then show ?case
    by (cases "iterencode (snd kv)") (auto dest: iterencode_error(1) split: sum.splits)
qed (auto simp: NpEncoder_default_def split: sum.splits)

lemma dumps_Inr:
  assumes "dumps doc = Inr out"
  shows "wrappers_only doc" and "out = spec_normalise doc" and "plain out"
proof -
  show w: "wrappers_only doc"
    using assms iterencode_unsupported(1) [of doc] by (auto simp: dumps_def)
  from iterencode_normalises(1) [OF w] assms
  show "out = spec_normalise doc" and "plain out"
    by (simp_all add: dumps_def)
qed

section \<open>Properties of the annotation assembler\<close>

lemma py_get_PyDict: "py_get key (PyDict kvs) = map_of kvs key"
  by (simp add: py_get_def)

lemma append_annotation_eq:
  "append_annotation i c anns p = anns @ [PyDict
            [(''id'', PyInt (int (length anns) + 1)),
             (''iscrowd'', PyInt 0),
             (''image_id'', PyInt (int i + 1)),
             (''category_id'', PyInt (int c)),
             (''segmentation'', PyList [PyList (concat p)]),
             (''area'', PyInt 0),
             (''bbox'', PyList [])]]"
  by (simp add: append_annotation_def Let_def)

lemma ids_ok_append_annotation:
  "ids_ok anns \<Longrightarrow> ids_ok (append_annotation i c anns p)"
proof -
  assume a: "ids_ok anns"
  have "[1..int (length anns) + 1] = [1..int (length anns)] @ [int (length anns) + 1]"
    by (subst upto_rec2) simp_all
  with a show ?thesis
    by (simp add: ids_ok_def append_annotation_eq py_get_PyDict add.commute)
qed

lemma length_append_annotation: "length (append_annotation i c anns p) = Suc (length anns)"
  by (simp add: append_annotation_eq)

lemma foldl_append_annotation_ids:
  "ids_ok anns \<Longrightarrow> ids_ok (foldl (append_annotation i c) anns ps)"
  by (induction ps arbitrary: anns) (simp_all add: ids_ok_append_annotation)

lemma foldl_append_annotation_length:
  "length (foldl (append_annotation i c) anns ps) = length anns + length ps"
  by (induction ps arbitrary: anns) (simp_all add: length_append_annotation)

lemma foldl_append_annotation_set:
  "set (foldl (append_annotation i c) anns ps) \<subseteq> set anns \<union> {a. tagged i c a}"
proof (induction ps arbitrary: anns)
  case Nil
  then show ?case by simp
next
  case (Cons p ps)
  have "set (append_annotation i c anns p) \<subseteq> set anns \<union> {a. tagged i c a}"
    by (simp add: append_annotation_eq tagged_def py_get_PyDict)
  with Cons [of "append_annotation i c anns p"] show ?case by auto
qed

lemma append_annotations_ids: "ids_ok anns \<Longrightarrow> ids_ok (append_annotations i anns all)"
  unfolding append_annotations_def
  by (induction all arbitrary: anns) (simp_all add: foldl_append_annotation_ids)

lemma append_annotations_length:
  "length (append_annotations i anns all) = length anns + polygon_count all"
  unfolding append_annotations_def polygon_count_def
  by (induction all arbitrary: anns) (simp_all add: foldl_append_annotation_length)

lemma append_annotations_set:
  "set (append_annotations i anns all) \<subseteq> set anns \<union> {a. \<exists>c \<in> fst ` set all. tagged i c a}"
  unfolding append_annotations_def
proof (induction all arbitrary: anns)
  case Nil
  then show ?case by simp
next
  case (Cons e all)
  let ?anns = "foldl (append_annotation i (fst e)) anns (snd e)"
  have "set ?anns \<subseteq> set anns \<union> {a. tagged i (fst e) a}"
    by (rule foldl_append_annotation_set)
  with Cons [of ?anns] show ?case by auto
qed

text \<open>A pass of the loop that does not raise appends one image record and the annotations of the image.\<close>

lemma predict_image_Inr:
  assumes "predict_image infer g image_dir i p st = Inr st'"
  shows "\<exists>f. saved_name image_dir p = Inr f \<and> fst st' = fst st @ [image_entry i (infer p) f]"
    and "snd st' = append_annotations i (snd st) (polygons_of infer g p)"
  using assms by (auto simp: predict_image_def Let_def split: sum.splits)

lemma predict_loop_annotations:
  assumes "predict_loop infer g image_dir (List.enumerate n shard) st = Inr st'"
  shows "length (snd st') = length (snd st) + polygons_emitted infer g shard"
    and "ids_ok (snd st) \<Longrightarrow> ids_ok (snd st')"
    and "set (snd st') \<subseteq> set (snd st) \<union>
          {a. \<exists>j < length shard. \<exists>c \<in> fst ` set (polygons_of infer g (shard ! j)). tagged (n + j) c a}"
  using assms
proof (induction shard arbitrary: n st)
  case Nil
  { case 1 then show ?case by (simp add: polygons_emitted_def) }
  { case 2 then show ?case by simp }
  { case 3 then show ?case by simp }
next
  case (Cons p shard)
  { case 1
    then obtain st1 where s: "predict_image infer g image_dir n p st = Inr st1"
      "predict_loop infer g image_dir (List.enumerate (Suc n) shard) st1 = Inr st'"
      by (auto split: sum.splits)
    from Cons(1) [OF s(2)] predict_image_Inr(2) [OF s(1)] show ?case
      by (simp add: polygons_emitted_def append_annotations_length) }
  { case 2
    then obtain st1 where s: "predict_image infer g image_dir n p st = Inr st1"
      "predict_loop infer g image_dir (List.enumerate (Suc n) shard) st1 = Inr st'"
      by (auto split: sum.splits)
    from Cons(2) [OF _ s(2)] predict_image_Inr(2) [OF s(1)] 2(1) show ?case
      by (simp add: append_annotations_ids) }
  { case 3
    then obtain st1 where s: "predict_image infer g image_dir n p st = Inr st1"
      "predict_loop infer g image_dir (List.enumerate (Suc n) shard) st1 = Inr st'"
      by (auto split: sum.splits)
    have a: "set (snd st1) \<subseteq> set (snd st) \<union> {a. \<exists>c \<in> fst ` set (polygons_of infer g p). tagged n c a}"
      using predict_image_Inr(2) [OF s(1)] append_annotations_set [of n "snd st"] by simp
    have b: "set (snd st') \<subseteq> set (snd st1) \<union>
          {a. \<exists>j < length shard. \<exists>c \<in> fst ` set (polygons_of infer g (shard ! j)). tagged (Suc n + j) c a}"
      by (rule Cons(3) [OF s(2)])
    show ?case
    proof
      fix a assume "a \<in> set (snd st')"
      with b a consider "a \<in> set (snd st)"
        | "\<exists>c \<in> fst ` set (polygons_of infer g p). tagged n c a"
        | "\<exists>j < length shard. \<exists>c \<in> fst ` set (polygons_of infer g (shard ! j)). tagged (Suc n + j) c a"
        by blast
      then show "a \<in> set (snd st) \<union>
          {a. \<exists>j < length (p # shard). \<exists>c \<in> fst ` set (polygons_of infer g ((p # shard) ! j)). tagged (n + j) c a}"
      proof cases
        case 1
        then show ?thesis by simp
      next
        case 2
        then have "\<exists>j < length (p # shard). \<exists>c \<in> fst ` set (polygons_of infer g ((p # shard) ! j)). tagged (n + j) c a"
          by (intro exI [of _ 0]) simp
        then show ?thesis by simp
      next
        case 3
        then obtain j where "j < length shard"
          "\<exists>c \<in> fst ` set (polygons_of infer g (shard ! j)). tagged (Suc n + j) c a" by blast
        then have "\<exists>j < length (p # shard). \<exists>c \<in> fst ` set (polygons_of infer g ((p # shard) ! j)). tagged (n + j) c a"
          by (intro exI [of _ "Suc j"]) simp
        then show ?thesis by simp
      qed
    qed }
qed

lemma predict_loop_images:
  assumes "predict_loop infer g image_dir (List.enumerate n shard) st = Inr st'"
  shows "\<exists>new. fst st' = fst st @ new \<and> length new = length shard
           \<and> (\<forall>j < length shard. \<exists>f. saved_name image_dir (shard ! j) = Inr f
                 \<and> new ! j = image_entry (n + j) (infer (shard ! j)) f)"
  using assms
proof (induction shard arbitrary: n st)
  case Nil
  then show ?case by simp
next
  case (Cons p shard)
  then obtain st1 where s: "predict_image infer g image_dir n p st = Inr st1"
      "predict_loop infer g image_dir (List.enumerate (Suc n) shard) st1 = Inr st'"
    by (auto split: sum.splits)
  from predict_image_Inr(1) [OF s(1)] obtain f where
    f: "saved_name image_dir p = Inr f" "fst st1 = fst st @ [image_entry n (infer p) f]"
    by blast
  from Cons.IH [OF s(2)] obtain new where
    n: "fst st' = fst st1 @ new" "length new = length shard"
       "\<forall>j < length shard. \<exists>f. saved_name image_dir (shard ! j) = Inr f
                 \<and> new ! j = image_entry (Suc n + j) (infer (shard ! j)) f"
    by blast
  let ?new = "image_entry n (infer p) f # new"
  have "\<forall>j < length (p # shard). \<exists>f. saved_name image_dir ((p # shard) ! j) = Inr f
                 \<and> ?new ! j = image_entry (n + j) (infer ((p # shard) ! j)) f"
  proof (intro allI impI)
    fix j assume "j < length (p # shard)"
    then show "\<exists>f. saved_name image_dir ((p # shard) ! j) = Inr f
                 \<and> ?new ! j = image_entry (n + j) (infer ((p # shard) ! j)) f"
      using f(1) n(3) by (cases j) auto
  qed
  moreover have "fst st' = fst st @ ?new" using n(1) f(2) by simp
  moreover have "length ?new = length (p # shard)" using n(2) by simp
  ultimately show ?case by blast
qed

lemma py_get_image_entry:
  "py_get ''id'' (image_entry i pred f) = Some (PyInt (int i + 1))"
  "py_get ''file_name'' (image_entry i pred f) = Some (PyStr f)"
  by (simp_all add: image_entry_def py_get_PyDict)

lemma upto_as_map: "[1..int n] = map (\<lambda>j. int j + 1) [0..<n]"
proof (induction n)
  case 0
  then show ?case by simp
next
  case (Suc n)
  have "[1..int (Suc n)] = [1..int n] @ [int n + 1]"
    by (subst upto_rec2) simp_all
  with Suc show ?case by simp
qed

text \<open>A normal return of \<open>predict\<close>, taken apart.\<close>

lemma predict_Inr:
  assumes "predict infer g image_list image_dir nranks local_rank = Inr res"
  shows "\<exists>shard st. select_shard image_list nranks local_rank = Inr shard
           \<and> predict_loop infer g image_dir (List.enumerate 0 shard) ([], []) = Inr st
           \<and> images res = fst st \<and> annotations res = snd st
           \<and> dumps (PyDict [(''categories'', PyList categories), (''images'', PyList (fst st)),
                 (''annotations'', PyList (snd st)), (''info'', PyStr ''''),
                 (''licenses'', PyList [])]) = Inr (written res)"
  using assms by (auto simp: predict_def Let_def split: sum.splits)

text \<open>
  \<open>predict\<close> returns whenever its rank has a shard, every image of the shard has a
  non-empty saved name and the tracer's polygons can be serialised.
\<close>

lemma predict_image_returns:
  "saved_name image_dir p = Inr f \<Longrightarrow> \<exists>st'. predict_image infer g image_dir i p st = Inr st'"
  by (simp add: predict_image_def Let_def)

lemma predict_loop_returns:
  "\<forall>p \<in> set shard. \<exists>f. saved_name image_dir p = Inr f \<Longrightarrow>
   \<exists>st'. predict_loop infer g image_dir (List.enumerate n shard) st = Inr st'"
proof (induction shard arbitrary: n st)
  case Nil
  then show ?case by simp
next
  case (Cons p shard)
  then obtain f where "saved_name image_dir p = Inr f" by auto
  from predict_image_returns [OF this] obtain st1 where
    "predict_image infer g image_dir n p st = Inr st1" by blast
  moreover from Cons have "\<exists>st'. predict_loop infer g image_dir (List.enumerate (Suc n) shard) st1 = Inr st'"
    by simp
  ultimately show ?case by auto
qed

lemma wrappers_only_categories: "list_all wrappers_only (categories :: 'f pyobj list)"
  by (simp add: categories_def category_def list_all_iff)

lemma wrappers_only_image_entry: "wrappers_only (image_entry i pred f)"
  by (simp add: image_entry_def)

lemma foldl_append_annotation_wrappers:
  "list_all wrappers_only anns \<Longrightarrow> list_all (\<lambda>polygon. list_all (list_all wrappers_only) polygon) ps
   \<Longrightarrow> list_all wrappers_only (foldl (append_annotation i c) anns ps)"
proof (induction ps arbitrary: anns)
  case Nil
  then show ?case by simp
next
  case (Cons p ps)
  have "list_all wrappers_only (append_annotation i c anns p)"
    using Cons(2,3) by (auto simp: append_annotation_eq list_all_iff)
  with Cons show ?case by simp
qed

lemma append_annotations_wrappers:
  "list_all wrappers_only anns \<Longrightarrow> encodable all \<Longrightarrow>
   list_all wrappers_only (append_annotations i anns all)"
  unfolding append_annotations_def encodable_def
  by (induction all arbitrary: anns) (simp_all add: foldl_append_annotation_wrappers)

lemma predict_loop_wrappers:
  assumes "predict_loop infer g image_dir (List.enumerate n shard) st = Inr st'"
    and "list_all wrappers_only (fst st)" and "list_all wrappers_only (snd st)"
    and "\<forall>p \<in> set shard. encodable (polygons_of infer g p)"
  shows "list_all wrappers_only (fst st') \<and> list_all wrappers_only (snd st')"
  using assms
proof (induction shard arbitrary: n st)
  case Nil
  then show ?case by simp
next
  case (Cons p shard)
  then obtain st1 where s: "predict_image infer g image_dir n p st = Inr st1"
      "predict_loop infer g image_dir (List.enumerate (Suc n) shard) st1 = Inr st'"
    by (auto split: sum.splits)
  from predict_image_Inr [OF s(1)] Cons.prems(2,3,4)
  have "list_all wrappers_only (fst st1)" "list_all wrappers_only (snd st1)"
    by (auto simp: wrappers_only_image_entry append_annotations_wrappers)
  with Cons.IH [OF s(2)] Cons.prems(4) show ?case by simp
qed

lemma predict_returns:
  assumes "select_shard image_list nranks local_rank = Inr shard"
    and "\<forall>p \<in> set shard. \<exists>f. saved_name image_dir p = Inr f"
    and "\<forall>p \<in> set shard. encodable (polygons_of infer g p)"
  shows "\<exists>res. predict infer g image_list image_dir nranks local_rank = Inr res"
proof -
  from predict_loop_returns [OF assms(2)] obtain st where
    st: "predict_loop infer g image_dir (List.enumerate 0 shard) ([], []) = Inr st" by blast
  from predict_loop_wrappers [OF st _ _ assms(3)]
  have w: "list_all wrappers_only (fst st)" "list_all wrappers_only (snd st)" by simp_all
  let ?doc = "PyDict [(''categories'', PyList categories), (''images'', PyList (fst st)),
                 (''annotations'', PyList (snd st)), (''info'', PyStr []),
                 (''licenses'', PyList [])]"
  have "wrappers_only ?doc" using w by (simp add: wrappers_only_categories)
  then have "dumps ?doc = Inr (spec_normalise ?doc)"
    using iterencode_normalises(1) [of ?doc] by (simp add: dumps_def)
  with st assms(1) show ?thesis
    by (simp add: predict_def Let_def)
qed

text \<open>The example run returns, on the shard of both images, with five annotations.\<close>

lemma ex_predict_returns:
  "case predict example_infer example_tracer [''img/a.png'', ''img/b.png''] (Some ''img'') 1 0 of
     Inl e \<Rightarrow> False | Inr res \<Rightarrow> True"
  by code_simp

lemma ex_shard:
  "select_shard [''img/a.png'', ''img/b.png''] 1 0 = Inr [''img/a.png'', ''img/b.png'']"
  by code_simp

lemma ex_annotation_count:
  "case predict example_infer example_tracer [''img/a.png'', ''img/b.png''] (Some ''img'') 1 0 of
     Inl e \<Rightarrow> False | Inr res \<Rightarrow> length (annotations res) = 5"
  by code_simp

text \<open>
  Claim C1. When an invocation of \<open>predict\<close> has processed its shard, the \<open>id\<close> fields of
  the annotations it appended are, in the order of appending, exactly 1, 2, ..., K, where K
  is the number of polygons emitted over all images and categories of the shard: the
  numbering goes on from one image to the next and never starts again.
\<close>

theorem annotation_ids_sequence:
  assumes "predict infer get_polygon image_list image_dir nranks local_rank = Inr res"
  shows "\<exists>shard. select_shard image_list nranks local_rank = Inr shard
           \<and> map (py_get ''id'') (annotations res)
               = map (\<lambda>k. Some (PyInt k)) [1..int (polygons_emitted infer get_polygon shard)]"
proof -
  from predict_Inr [OF assms] obtain shard st where
    s: "select_shard image_list nranks local_rank = Inr shard"
       "predict_loop infer get_polygon image_dir (List.enumerate 0 shard) ([], []) = Inr st"
       "annotations res = snd st"
    by blast
  have "ids_ok (snd st)"
    using predict_loop_annotations(2) [OF s(2)] by (simp add: ids_ok_def)
  moreover have "length (snd st) = polygons_emitted infer get_polygon shard"
    using predict_loop_annotations(1) [OF s(2)] by simp
  ultimately show ?thesis
    using s(1,3) by (auto simp: ids_ok_def)
qed

theorem annotation_ids_sequence_witness:
  "\<exists>res. predict example_infer example_tracer [''img/a.png'', ''img/b.png''] (Some ''img'') 1 0
            = Inr res
     \<and> map (py_get ''id'') (annotations res)
         = [Some (PyInt 1), Some (PyInt 2), Some (PyInt 3), Some (PyInt 4), Some (PyInt 5)]"
proof -
  let ?K = "polygons_emitted example_infer example_tracer [''img/a.png'', ''img/b.png'']"
  from ex_annotation_count obtain res where
    h: "predict example_infer example_tracer [''img/a.png'', ''img/b.png''] (Some ''img'') 1 0
          = Inr res"
    and len: "length (annotations res) = 5"
    by (auto split: sum.splits)
  have u: "[1..5::int] = [1, 2, 3, 4, 5]" by code_simp
  from annotation_ids_sequence [OF h] have
    e: "map (py_get ''id'') (annotations res) = map (\<lambda>k. Some (PyInt k)) [1..int ?K]"
    by (simp add: ex_shard)
  then have "length (annotations res) = length [1..int ?K]"
    by (metis length_map)
  with len have "?K = 5" by simp
  with e h u show ?thesis by simp
qed

text \<open>
  Claim C2. When an invocation of \<open>predict\<close> has processed its shard of N images, the \<open>id\<close>
  fields of the image records are exactly 1, 2, ..., N in input order: the record at position
  \<open>j\<close> is the one of the \<open>j\<close>-th image of the shard (it carries that image's saved name).
\<close>

theorem image_ids_sequence:
  assumes "predict infer get_polygon image_list image_dir nranks local_rank = Inr res"
  shows "\<exists>shard. select_shard image_list nranks local_rank = Inr shard
           \<and> map (py_get ''id'') (images res) = map (\<lambda>k. Some (PyInt k)) [1..int (length shard)]
           \<and> (\<forall>j < length shard. \<exists>f. saved_name image_dir (shard ! j) = Inr f
                 \<and> py_get ''file_name'' (images res ! j) = Some (PyStr f))"
proof -
  from predict_Inr [OF assms] obtain shard st where
    s: "select_shard image_list nranks local_rank = Inr shard"
       "predict_loop infer get_polygon image_dir (List.enumerate 0 shard) ([], []) = Inr st"
       "images res = fst st"
    by blast
  from predict_loop_images [OF s(2)] have
    n: "length (fst st) = length shard"
       "\<forall>j < length shard. \<exists>f. saved_name image_dir (shard ! j) = Inr f
                 \<and> fst st ! j = image_entry j (infer (shard ! j)) f"
    by auto
  have "map (py_get ''id'') (fst st) = map (\<lambda>j. Some (PyInt (int j + 1))) [0..<length shard]"
  proof (rule nth_equalityI)
    show "length (map (py_get ''id'') (fst st))
        = length (map (\<lambda>j. Some (PyInt (int j + 1))) [0..<length shard])"
      using n(1) by simp
  next
    fix j assume "j < length (map (py_get ''id'') (fst st))"
    then have j: "j < length shard" using n(1) by simp
    with n(2) obtain f where "fst st ! j = image_entry j (infer (shard ! j)) f" by blast
    with j n(1) show "map (py_get ''id'') (fst st) ! j
        = map (\<lambda>j. Some (PyInt (int j + 1))) [0..<length shard] ! j"
      by (simp add: py_get_image_entry)
  qed
  then have ids: "map (py_get ''id'') (images res)
      = map (\<lambda>k. Some (PyInt k)) [1..int (length shard)]"
    by (simp add: s(3) upto_as_map comp_def)
  have names: "\<forall>j < length shard. \<exists>f. saved_name image_dir (shard ! j) = Inr f
                 \<and> py_get ''file_name'' (images res ! j) = Some (PyStr f)"
    using n(2) by (auto simp: s(3) py_get_image_entry)
  from s(1) ids names show ?thesis by blast
qed

theorem image_ids_sequence_witness:
  "\<exists>res. predict example_infer example_tracer [''img/a.png'', ''img/b.png''] (Some ''img'') 1 0
            = Inr res
     \<and> map (py_get ''id'') (images res) = [Some (PyInt 1), Some (PyInt 2)]
     \<and> py_get ''file_name'' (images res ! 1) = Some (PyStr ''b.png'')"
proof -
  from ex_predict_returns obtain res where
    h: "predict example_infer example_tracer [''img/a.png'', ''img/b.png''] (Some ''img'') 1 0
          = Inr res"
    by (auto split: sum.splits)
  have u: "[1..2::int] = [1, 2]" by code_simp
  have n: "saved_name (Some ''img'') ''img/b.png'' = Inr ''b.png''" by code_simp
  from image_ids_sequence [OF h] have
    a: "map (py_get ''id'') (images res) = map (\<lambda>k. Some (PyInt k)) [1..2]"
    and b: "\<forall>j < 2. \<exists>f. saved_name (Some ''img'') ([''img/a.png'', ''img/b.png''] ! j) = Inr f
                 \<and> py_get ''file_name'' (images res ! j) = Some (PyStr f)"
    by (simp_all add: ex_shard)
  from b [rule_format, of 1]
  have "\<exists>f. saved_name (Some ''img'') ([''img/a.png'', ''img/b.png''] ! 1) = Inr f
                 \<and> py_get ''file_name'' (images res ! 1) = Some (PyStr f)"
    by simp
  with n have "py_get ''file_name'' (images res ! 1) = Some (PyStr ''b.png'')" by simp
  with h a u show ?thesis by simp
qed

text \<open>
  Claim C9. When the tracer returns \<open>None\<close> for the mask of a class id,
  \<open>get_polygons_for_all_classes\<close> raises nothing and the mapping it returns has no entry for
  that class id; and so the annotations that \<open>predict\<close> appends hold none of that category
  for that image.
\<close>

theorem none_result_contributes_nothing:
  "(get_polygon (class_mask pred c) img_size = None
      \<longrightarrow> c \<notin> fst ` set (get_polygons_for_all_classes get_polygon pred img_size))
   \<and> (predict infer get_polygon image_list image_dir nranks local_rank = Inr res
       \<and> select_shard image_list nranks local_rank = Inr shard \<and> j < length shard
       \<and> get_polygon (class_mask (infer (shard ! j)) c) (shape (infer (shard ! j))) = None
      \<longrightarrow> \<not> (\<exists>a \<in> set (annotations res).
              py_get ''image_id'' a = Some (PyInt (int j + 1))
              \<and> py_get ''category_id'' a = Some (PyInt (int c))))"
proof (intro conjI impI)
  assume "get_polygon (class_mask pred c) img_size = None"
  then show "c \<notin> fst ` set (get_polygons_for_all_classes get_polygon pred img_size)"
    by (simp add: get_polygons_keys)
next
  assume asm: "predict infer get_polygon image_list image_dir nranks local_rank = Inr res
       \<and> select_shard image_list nranks local_rank = Inr shard \<and> j < length shard
       \<and> get_polygon (class_mask (infer (shard ! j)) c) (shape (infer (shard ! j))) = None"
  then have p: "predict infer get_polygon image_list image_dir nranks local_rank = Inr res"
    and sh: "select_shard image_list nranks local_rank = Inr shard"
    and j: "j < length shard"
    and none: "get_polygon (class_mask (infer (shard ! j)) c) (shape (infer (shard ! j))) = None"
    by simp_all
  from predict_Inr [OF p] sh obtain st where
    s: "predict_loop infer get_polygon image_dir (List.enumerate 0 shard) ([], []) = Inr st"
       "annotations res = snd st"
    by auto
  show "\<not> (\<exists>a \<in> set (annotations res).
              py_get ''image_id'' a = Some (PyInt (int j + 1))
              \<and> py_get ''category_id'' a = Some (PyInt (int c)))"
  proof
    assume "\<exists>a \<in> set (annotations res).
              py_get ''image_id'' a = Some (PyInt (int j + 1))
              \<and> py_get ''category_id'' a = Some (PyInt (int c))"
    then obtain a where a: "a \<in> set (snd st)" "tagged j c a"
      using s(2) by (auto simp: tagged_def)
    have "set (snd st) \<subseteq> set (snd (([], []) :: 'a pyobj list \<times> 'a pyobj list)) \<union>
          {a. \<exists>j < length shard. \<exists>c \<in> fst ` set (polygons_of infer get_polygon (shard ! j)).
                tagged (0 + j) c a}"
      by (rule predict_loop_annotations(3) [OF s(1)])
    with a(1) have "\<exists>j < length shard. \<exists>c \<in> fst ` set (polygons_of infer get_polygon (shard ! j)).
                tagged (0 + j) c a"
      by (simp add: subset_iff del: add_0)
    then obtain j' c' where
      t: "j' < length shard" "c' \<in> fst ` set (polygons_of infer get_polygon (shard ! j'))"
         "tagged j' c' a"
      by (metis add_0)
    from a(2) t(3) have "j' = j" "c' = c" by (auto simp: tagged_def)
    with t(2) none show False by (simp add: get_polygons_keys)
  qed
qed

theorem none_result_contributes_nothing_witness:
  "example_tracer (class_mask (example_infer ''img/a.png'') 2) (shape (example_infer ''img/a.png''))
     = None
   \<and> 2 \<notin> fst ` set (get_polygons_for_all_classes example_tracer (example_infer ''img/a.png'')
                      (shape (example_infer ''img/a.png'')))
   \<and> (\<exists>res. predict example_infer example_tracer [''img/a.png'', ''img/b.png''] (Some ''img'') 1 0
            = Inr res
        \<and> \<not> (\<exists>a \<in> set (annotations res).
              py_get ''image_id'' a = Some (PyInt 1) \<and> py_get ''category_id'' a = Some (PyInt 2)))"
proof -
  let ?pred = "example_infer ''img/a.png''"
  let ?shard = "[''img/a.png'', ''img/b.png'']"
  from ex_predict_returns obtain res where
    h: "predict example_infer example_tracer ?shard (Some ''img'') 1 0 = Inr res"
    by (auto split: sum.splits)
  have n: "example_tracer (class_mask ?pred 2) (shape ?pred) = None" by code_simp
  then have n': "example_tracer (class_mask (example_infer (?shard ! 0)) 2)
      (shape (example_infer (?shard ! 0))) = None" by simp
  note t = none_result_contributes_nothing [of example_tracer ?pred 2 "shape ?pred"
      example_infer ?shard "Some ''img''" 1 0 res ?shard 0]
  from t n have a: "2 \<notin> fst ` set (get_polygons_for_all_classes example_tracer ?pred (shape ?pred))"
    by blast
  from t h ex_shard n' have "\<not> (\<exists>a \<in> set (annotations res).
      py_get ''image_id'' a = Some (PyInt (int 0 + 1))
      \<and> py_get ''category_id'' a = Some (PyInt (int 2)))"
    by simp
  then have b: "\<not> (\<exists>a \<in> set (annotations res).
      py_get ''image_id'' a = Some (PyInt 1) \<and> py_get ''category_id'' a = Some (PyInt 2))"
    by simp
  from n a h b show ?thesis by blast
qed

section \<open>Serialising the document\<close>

text \<open>
  Claim C7. \<open>NpEncoder\<close> turns a numpy integer into a plain integer, a numpy floating value
  into a plain float and an array into nested plain lists; a document whose only non-standard
  values are these wrappers is serialised, and what is written is the document with every
  wrapper normalised, with no wrapper left in it. In particular the document that \<open>predict\<close>
  writes holds plain values only.
\<close>

theorem NpEncoder_normalises_wrappers:
  "NpEncoder_default (NpInteger i) = Inr (PyInt i)
   \<and> NpEncoder_default (NpFloating x) = Inr (PyFloat x)
   \<and> NpEncoder_default (NpArray a) = Inr (tolist a) \<and> plain (tolist a)
   \<and> (wrappers_only doc \<longrightarrow> dumps doc = Inr (spec_normalise doc) \<and> plain (spec_normalise doc))
   \<and> (predict infer get_polygon image_list image_dir nranks local_rank = Inr res
        \<longrightarrow> plain (written res))"
proof -
  have "predict infer get_polygon image_list image_dir nranks local_rank = Inr res
        \<Longrightarrow> plain (written res)"
    using predict_Inr [of infer get_polygon image_list image_dir nranks local_rank res]
    by (auto dest: dumps_Inr(3))
  then show ?thesis
    by (auto simp: NpEncoder_default_def plain_tolist dumps_def iterencode_normalises(1))
qed

theorem NpEncoder_normalises_wrappers_witness:
  "wrappers_only (PyDict [(''segmentation'',
       PyList [PyList [NpInteger 3, NpFloating (), NpArray (NdArr [NdInt 1, NdInt 2])]])])
   \<and> dumps (PyDict [(''segmentation'',
       PyList [PyList [NpInteger 3, NpFloating (), NpArray (NdArr [NdInt 1, NdInt 2])]])])
     = Inr (PyDict [(''segmentation'',
         PyList [PyList [PyInt 3, PyFloat (), PyList [PyInt 1, PyInt 2]]])])
   \<and> (\<exists>res. predict example_infer example_tracer [''img/a.png'', ''img/b.png''] (Some ''img'') 1 0
            = Inr res \<and> plain (written res))"
proof -
  let ?doc = "PyDict [(''segmentation'',
       PyList [PyList [NpInteger 3, NpFloating (), NpArray (NdArr [NdInt 1, NdInt 2])]])]"
  from ex_predict_returns obtain res where
    h: "predict example_infer example_tracer [''img/a.png'', ''img/b.png''] (Some ''img'') 1 0
          = Inr res"
    by (auto split: sum.splits)
  have w: "wrappers_only ?doc" by simp
  note t = NpEncoder_normalises_wrappers [of 0 "()" "NdInt 0" ?doc example_infer example_tracer
      "[''img/a.png'', ''img/b.png'']" "Some ''img''" 1 0 res]
  from t w have "dumps ?doc = Inr (spec_normalise ?doc)" by blast
  moreover from t h have "plain (written res)" by blast
  ultimately show ?thesis using w h by auto
qed

text \<open>
  Claim C10. For every object that is neither a numpy integer nor a numpy floating value nor
  an array, \<open>NpEncoder.default\<close> raises \<open>NameError\<close>, and it never raises the base class's
  \<open>TypeError\<close>; serialising a document that holds an object the standard encoder does not
  know and that is none of the three fails with \<open>NameError\<close>, never with \<open>TypeError\<close>.
\<close>

theorem NpEncoder_default_NameError:
  "((\<forall>i. obj \<noteq> NpInteger i) \<and> (\<forall>x. obj \<noteq> NpFloating x) \<and> (\<forall>a. obj \<noteq> NpArray a)
      \<longrightarrow> NpEncoder_default obj = Inl NameError)
   \<and> NpEncoder_default obj \<noteq> Inl TypeError
   \<and> (\<not> wrappers_only doc \<longrightarrow> dumps doc = Inl NameError)
   \<and> dumps doc \<noteq> Inl TypeError"
proof -
  have "dumps doc \<noteq> Inl TypeError"
    using iterencode_error(1) [of doc TypeError] by (auto simp: dumps_def)
  then show ?thesis
    by (cases obj) (auto simp: NpEncoder_default_def dumps_def iterencode_unsupported(1))
qed

theorem NpEncoder_default_NameError_witness:
  "NpEncoder_default (PyOther ''set'' :: unit pyobj) = Inl NameError
   \<and> NpEncoder_default (PyStr ''abc'' :: unit pyobj) = Inl NameError
   \<and> dumps (PyDict [(''images'', PyList [PyInt 1, PyOther ''set'']), (''info'', PyStr '''')]
        :: unit pyobj) = Inl NameError"
proof -
  let ?doc = "PyDict [(''images'', PyList [PyInt 1, PyOther ''set'']), (''info'', PyStr '''')]
        :: unit pyobj"
  have n: "\<not> wrappers_only ?doc" by simp
  from NpEncoder_default_NameError [of "PyOther ''set'' :: unit pyobj" ?doc] n
  have a: "NpEncoder_default (PyOther ''set'' :: unit pyobj) = Inl NameError"
    and d: "dumps ?doc = Inl NameError"
    by simp_all
  from NpEncoder_default_NameError [of "PyStr ''abc'' :: unit pyobj" ?doc]
  have b: "NpEncoder_default (PyStr ''abc'' :: unit pyobj) = Inl NameError"
    by simp
  from a b d show ?thesis by simp
qed

end
